theory Spec2Isabelle
  imports Main
begin

section \<open>The part list model of the notation module\<close>

text \<open>
  A shallow embedding of \<^verbatim>\<open>src/notation/view/partlistmodel.cpp\<close>. The
  adapter \<^verbatim>\<open>PartListModel\<close> keeps an ordered list of notation handles
  (shared pointers), a selection model over the rows and a pending current notation. The
  notations themselves live on a heap that the adapter shares with the host context, so a
  rename or a change of voice visibility is visible through every handle of the object.
  Row and voice indices are C++ \<^verbatim>\<open>int\<close>s and may be negative; they are \<open>int\<close>
  here (row counts stay far below the machine limit, so nothing wraps). The strings passed
  through \<^verbatim>\<open>qtrc\<close> stand untranslated.
\<close>

subsection \<open>Notations on the heap\<close>

text \<open>
  \<^verbatim>\<open>INotationPtr\<close> is a shared pointer. A non-null pointer is a heap
  address; where the source tests a pointer for null the model uses \<open>INotationPtr option\<close>.
  The attributes are the ones the adapter reads and writes: \<^verbatim>\<open>metaInfo().title\<close>,
  \<^verbatim>\<open>parts()->voiceVisible(i)\<close>, the opened flag, whether
  \<^verbatim>\<open>dynamic_pointer_cast<IExcerptNotation>\<close> succeeds on the object, and
  for a master notation its \<^verbatim>\<open>excerpts().val\<close>.
\<close>

type_synonym INotationPtr = nat

record INotation =
  title :: string
  voiceVisible :: "nat \<Rightarrow> bool"
  opened :: bool
  isExcerptNotation :: bool
  excerpts :: "INotationPtr list"

text \<open>
  \<^verbatim>\<open>QModelIndex\<close> of a list model: \<open>None\<close> is the invalid index, \<open>Some row\<close>
  a valid one.
\<close>

type_synonym QModelIndex = "nat option"

text \<open>
  The notifications the adapter's own code sends to the view: the reset pair of
  \<^verbatim>\<open>beginResetModel/endResetModel\<close>, \<^verbatim>\<open>dataChanged\<close>, and the
  insert and remove pairs. The \<^verbatim>\<open>selectionChanged\<close> signal is emitted by the
  toolkit's selection model, not by this file, and is not recorded.
\<close>

datatype signal =
    ModelReset
  | DataChanged QModelIndex QModelIndex
  | RowsInserted nat nat
  | RowsRemoved nat nat

text \<open>
  The adapter together with the part of the host it talks to. \<open>heap\<close> and
  \<open>nextHandle\<close> are the object store (every handle below \<open>nextHandle\<close> is
  allocated); \<open>currentMasterNotation\<close> and \<open>currentNotation\<close> belong to the
  host context; \<open>m_selectionModel\<close> holds the selected rows in the order in which
  \<^verbatim>\<open>selectedIndexes()\<close> lists them; \<open>emitted\<close> is the log of
  notifications, oldest first.
\<close>

record PartListModel =
  heap :: "INotationPtr \<Rightarrow> INotation"
  nextHandle :: INotationPtr
  currentMasterNotation :: INotationPtr
  currentNotation :: "INotationPtr option"
  m_notations :: "INotationPtr list"
  m_selectionModel :: "nat list"
  m_currentNotation :: "INotationPtr option"
  emitted :: "signal list"

definition masterNotation :: "PartListModel \<Rightarrow> INotationPtr" where
  "masterNotation s = currentMasterNotation s"

definition rowCount :: "PartListModel \<Rightarrow> int" where
  "rowCount s = int (length (m_notations s))"

definition isNotationIndexValid :: "PartListModel \<Rightarrow> int \<Rightarrow> bool" where
  "isNotationIndexValid s index = (index \<ge> 0 \<and> index < int (length (m_notations s)))"

text \<open>
  Modelled from the spec: the constant \<^verbatim>\<open>VOICES\<close> and the helper
  \<^verbatim>\<open>isVoiceIndexValid\<close> are declared outside \<^verbatim>\<open>src/\<close>. The
  visibility vector has one entry per supported voice (four in the spec's example), and a
  voice index is valid when it addresses one of them.
\<close>

definition VOICES :: nat where
  "VOICES = 4"

definition isVoiceIndexValid :: "int \<Rightarrow> bool" where
  "isVoiceIndexValid voiceIndex = (0 \<le> voiceIndex \<and> voiceIndex < int VOICES)"

subsection \<open>Small pieces of the toolkit\<close>

text \<open>\<^verbatim>\<open>QString::number(int)\<close>: the decimal numeral, with a sign when negative.\<close>

fun digits :: "nat \<Rightarrow> string" where
  "digits n =
     (if n < 10 then [''0123456789'' ! n]
      else digits (n div 10) @ [''0123456789'' ! (n mod 10)])"

declare digits.simps [simp del]

definition QString_number :: "int \<Rightarrow> string" where
  "QString_number n = (if n < 0 then CHR ''-'' # digits (nat (- n)) else digits (nat n))"

text \<open>\<^verbatim>\<open>QStringList::join(separator)\<close>.\<close>

fun join :: "string list \<Rightarrow> string \<Rightarrow> string" where
  "join [] sep = []"
| "join [x] sep = x"
| "join (x # y # ys) sep = x @ sep @ join (y # ys) sep"

text \<open>\<^verbatim>\<open>QList::indexOf(value)\<close>: the first position of the value, or -1.\<close>

fun indexOfFrom :: "'a list \<Rightarrow> 'a \<Rightarrow> int \<Rightarrow> int" where
  "indexOfFrom [] x i = - 1"
| "indexOfFrom (y # ys) x i = (if y = x then i else indexOfFrom ys x (i + 1))"

definition indexOf :: "'a list \<Rightarrow> 'a \<Rightarrow> int" where
  "indexOf xs x = indexOfFrom xs x 0"

text \<open>
  \<^verbatim>\<open>QAbstractListModel::index(row)\<close> gives a valid index only for an existing
  row.
\<close>

definition index :: "PartListModel \<Rightarrow> int \<Rightarrow> QModelIndex" where
  "index s row = (if 0 \<le> row \<and> row < rowCount s then Some (nat row) else None)"

text \<open>
  The selection model is constructed on the adapter, so it follows the adapter's rows. Only
  single rows are ever toggled, so its ranges are single rows, kept in a list.
  \<^item> \<^verbatim>\<open>select(index, Toggle)\<close> drops a selected row and appends an unselected one;
  \<^item> when a row is removed it is dropped from the selection and the rows behind it move up;
  \<^item> when a row is inserted the selected rows at and behind it move down;
  \<^item> a model reset and \<^verbatim>\<open>clear()\<close> empty the selection.
\<close>

definition selToggle :: "nat \<Rightarrow> nat list \<Rightarrow> nat list" where
  "selToggle row sel = (if row \<in> set sel then filter (\<lambda>r. r \<noteq> row) sel else sel @ [row])"

definition selRowRemoved :: "nat \<Rightarrow> nat list \<Rightarrow> nat list" where
  "selRowRemoved row sel = map (\<lambda>r. if row < r then r - 1 else r) (filter (\<lambda>r. r \<noteq> row) sel)"

definition selRowInserted :: "nat \<Rightarrow> nat list \<Rightarrow> nat list" where
  "selRowInserted row sel = map (\<lambda>r. if row \<le> r then Suc r else r) sel"

definition isSelected :: "PartListModel \<Rightarrow> nat \<Rightarrow> bool" where
  "isSelected s row = (row \<in> set (m_selectionModel s))"

subsection \<open>Writing to a notation\<close>

definition setTitle :: "INotationPtr \<Rightarrow> string \<Rightarrow> PartListModel \<Rightarrow> PartListModel" where
  "setTitle h t s = s\<lparr>heap := (heap s)(h := (heap s h)\<lparr>title := t\<rparr>)\<rparr>"

definition setOpened :: "INotationPtr \<Rightarrow> bool \<Rightarrow> PartListModel \<Rightarrow> PartListModel" where
  "setOpened h b s = s\<lparr>heap := (heap s)(h := (heap s h)\<lparr>opened := b\<rparr>)\<rparr>"

text \<open>
  Modelled from the spec: \<^verbatim>\<open>INotationParts::setVoiceVisible\<close> is outside
  \<^verbatim>\<open>src/\<close>; it sets the per-voice visibility that \<^verbatim>\<open>voiceVisible\<close>
  reads.
\<close>

definition setPartsVoiceVisible :: "INotationPtr \<Rightarrow> nat \<Rightarrow> bool \<Rightarrow> PartListModel \<Rightarrow> PartListModel" where
  "setPartsVoiceVisible h v b s =
     s\<lparr>heap := (heap s)(h := (heap s h)\<lparr>voiceVisible := (voiceVisible (heap s h))(v := b)\<rparr>)\<rparr>"

text \<open>
  Modelled from the spec: the host's factory \<^verbatim>\<open>newExcerptNotation\<close> and
  \<^verbatim>\<open>INotation::clone\<close> are outside \<^verbatim>\<open>src/\<close>. The factory returns a
  handle to a new excerpt object, different from every handle allocated before; its other
  attributes are the factory's choice (the content of the fresh cell). A clone is a new
  object with the attributes of the one it copies.
\<close>

definition newExcerptNotation :: "PartListModel \<Rightarrow> INotationPtr \<times> PartListModel" where
  "newExcerptNotation s =
     (nextHandle s,
      s\<lparr>heap := (heap s)(nextHandle s := (heap s (nextHandle s))\<lparr>isExcerptNotation := True\<rparr>),
        nextHandle := Suc (nextHandle s)\<rparr>)"

definition clone :: "INotationPtr \<Rightarrow> PartListModel \<Rightarrow> INotationPtr \<times> PartListModel" where
  "clone h s =
     (nextHandle s,
      s\<lparr>heap := (heap s)(nextHandle s := heap s h), nextHandle := Suc (nextHandle s)\<rparr>)"

subsection \<open>load\<close>

text \<open>
  \<^verbatim>\<open>load()\<close> appends the master and then each excerpt of the master to
  \<^verbatim>\<open>m_notations\<close>, between \<^verbatim>\<open>beginResetModel\<close> and
  \<^verbatim>\<open>endResetModel\<close>. The list is not emptied first.
\<close>

fun appendExcerpts :: "INotationPtr list \<Rightarrow> INotationPtr list \<Rightarrow> INotationPtr list" where
  "appendExcerpts ns [] = ns"
| "appendExcerpts ns (excerpt # rest) = appendExcerpts (ns @ [excerpt]) rest"

definition load :: "PartListModel \<Rightarrow> PartListModel" where
  "load s =
     s\<lparr>m_notations :=
          appendExcerpts (m_notations s @ [masterNotation s])
            (excerpts (heap s (masterNotation s))),
       m_selectionModel := [],
       emitted := emitted s @ [ModelReset]\<rparr>"

subsection \<open>Row data\<close>

datatype role =
    RoleTitle
  | RoleIsSelected
  | RoleIsMain
  | RoleVoicesVisibility
  | RoleVoicesTitle
  | RoleOther

datatype variant =
    Invalid
  | VString string
  | VBool bool
  | VList "bool list"

text \<open>The null check, then one entry per voice.\<close>

definition voicesVisibility :: "PartListModel \<Rightarrow> INotationPtr option \<Rightarrow> bool list" where
  "voicesVisibility s notation =
     (case notation of
        None \<Rightarrow> []
      | Some h \<Rightarrow> map (\<lambda>voiceIndex. voiceVisible (heap s h) voiceIndex) [0..<VOICES])"

text \<open>The loop of \<^verbatim>\<open>formatVoicesTitle\<close> that collects the numbers of the visible voices.\<close>

function visibleVoices :: "bool list \<Rightarrow> nat \<Rightarrow> string list \<Rightarrow> string list" where
  "visibleVoices visibility voiceIndex voices =
     (if voiceIndex < length visibility then
        visibleVoices visibility (voiceIndex + 1)
          (if visibility ! voiceIndex then voices @ [QString_number (int voiceIndex + 1)]
           else voices)
      else voices)"
  by pat_completeness auto
termination
  by (relation "measure (\<lambda>(visibility, voiceIndex, voices). length visibility - voiceIndex)") auto

declare visibleVoices.simps [simp del]

definition formatVoicesTitle :: "PartListModel \<Rightarrow> INotationPtr option \<Rightarrow> string" where
  "formatVoicesTitle s notation =
     (let visibility = voicesVisibility s notation;
          voices = visibleVoices visibility 0 []
      in if voices = [] then ''None''
         else if length voices = length visibility then ''All''
         else join voices '', '')"

text \<open>
  \<^verbatim>\<open>data(index, role)\<close>. An invalid index gives an invalid variant. The
  source reads \<^verbatim>\<open>m_notations[index.row()]\<close> without a range check: a row
  past the end is undefined behaviour, \<open>None\<close> here.
\<close>

definition data :: "PartListModel \<Rightarrow> QModelIndex \<Rightarrow> role \<Rightarrow> variant option" where
  "data s idx role =
     (case idx of
        None \<Rightarrow> Some Invalid
      | Some row \<Rightarrow>
          if row < length (m_notations s) then
            (let notation = m_notations s ! row in
             Some (case role of
                     RoleTitle \<Rightarrow> VString (title (heap s notation))
                   | RoleIsSelected \<Rightarrow> VBool (isSelected s row)
                   | RoleIsMain \<Rightarrow> VBool (notation = masterNotation s)
                   | RoleVoicesVisibility \<Rightarrow> VList (voicesVisibility s (Some notation))
                   | RoleVoicesTitle \<Rightarrow> VString (formatVoicesTitle s (Some notation))
                   | RoleOther \<Rightarrow> Invalid))
          else None)"

definition hasSelection :: "PartListModel \<Rightarrow> bool" where
  "hasSelection s = (m_selectionModel s \<noteq> [])"

definition selectedRows :: "PartListModel \<Rightarrow> nat list" where
  "selectedRows s = m_selectionModel s"

subsection \<open>The editing operations\<close>

text \<open>
  \<^verbatim>\<open>QList::insert(i, value)\<close> prepends for \<open>i \<le> 0\<close> and appends for
  \<open>i \<ge> size\<close>.
\<close>

definition insertNotation :: "int \<Rightarrow> INotationPtr \<Rightarrow> PartListModel \<Rightarrow> PartListModel" where
  "insertNotation destinationIndex notation s =
     (let d = nat destinationIndex in
      s\<lparr>m_notations := take d (m_notations s) @ [notation] @ drop d (m_notations s),
        m_selectionModel := selRowInserted d (m_selectionModel s),
        emitted := emitted s @ [RowsInserted d d]\<rparr>)"

definition createNewPart :: "PartListModel \<Rightarrow> PartListModel" where
  "createNewPart s =
     (let (notation, s1) = newExcerptNotation s;
          s2 = setTitle notation ''Part'' s1;
          s3 = setOpened notation True s2;
          s4 = insertNotation (int (length (m_notations s3))) notation s3
      in s4\<lparr>m_currentNotation := Some notation\<rparr>)"

definition selectPart :: "int \<Rightarrow> PartListModel \<Rightarrow> PartListModel" where
  "selectPart partIndex s =
     (if \<not> isNotationIndexValid s partIndex then s
      else
        let modelIndex = index s partIndex in
        s\<lparr>m_selectionModel :=
            (case modelIndex of
               None \<Rightarrow> m_selectionModel s
             | Some row \<Rightarrow> selToggle row (m_selectionModel s)),
          emitted := emitted s @ [DataChanged modelIndex modelIndex]\<rparr>)"

definition removePart :: "int \<Rightarrow> PartListModel \<Rightarrow> PartListModel" where
  "removePart partIndex s =
     (if \<not> isNotationIndexValid s partIndex then s
      else
        let row = nat partIndex;
            s1 = s\<lparr>m_selectionModel := selRowRemoved row (m_selectionModel s)\<rparr>;
            s2 = setOpened (m_notations s1 ! row) False s1
        in s2\<lparr>m_notations := take row (m_notations s2) @ drop (Suc row) (m_notations s2),
              emitted := emitted s2 @ [RowsRemoved row row]\<rparr>)"

definition notifyAboutNotationChanged :: "int \<Rightarrow> PartListModel \<Rightarrow> PartListModel" where
  "notifyAboutNotationChanged i s =
     (let modelIndex = index s i in
      s\<lparr>emitted := emitted s @ [DataChanged modelIndex modelIndex]\<rparr>)"

definition setPartTitle :: "int \<Rightarrow> string \<Rightarrow> PartListModel \<Rightarrow> PartListModel" where
  "setPartTitle partIndex t s =
     (if \<not> isNotationIndexValid s partIndex then s
      else
        let notation = m_notations s ! nat partIndex in
        if title (heap s notation) = t then s
        else notifyAboutNotationChanged partIndex (setTitle notation t s))"

definition setVoiceVisible :: "int \<Rightarrow> int \<Rightarrow> bool \<Rightarrow> PartListModel \<Rightarrow> PartListModel" where
  "setVoiceVisible partIndex voiceIndex visible s =
     (if \<not> isNotationIndexValid s partIndex \<or> \<not> isVoiceIndexValid voiceIndex then s
      else
        let notation = m_notations s ! nat partIndex in
        if voiceVisible (heap s notation) (nat voiceIndex) = visible then s
        else notifyAboutNotationChanged partIndex
               (setPartsVoiceVisible notation (nat voiceIndex) visible s))"

definition copyPart :: "int \<Rightarrow> PartListModel \<Rightarrow> PartListModel" where
  "copyPart partIndex s =
     (if \<not> isNotationIndexValid s partIndex then s
      else
        let (copy, s1) = clone (m_notations s ! nat partIndex) s;
            s2 = setTitle copy (title (heap s1 copy) @ '' (copy)'') s1
        in insertNotation (partIndex + 1) copy s2)"

text \<open>
  The two loops of \<^verbatim>\<open>removeSelectedParts\<close>. The first reads
  \<^verbatim>\<open>m_notations[row]\<close> for every selected row (a row past the end is undefined
  behaviour, \<open>None\<close>); the second looks every collected handle up again and removes
  the row where it is found first.
\<close>

fun notationsAt :: "INotationPtr list \<Rightarrow> nat list \<Rightarrow> INotationPtr list option" where
  "notationsAt ns [] = Some []"
| "notationsAt ns (row # rows) =
     (if row < length ns then
        (case notationsAt ns rows of None \<Rightarrow> None | Some hs \<Rightarrow> Some (ns ! row # hs))
      else None)"

fun removeNotations :: "INotationPtr list \<Rightarrow> PartListModel \<Rightarrow> PartListModel" where
  "removeNotations [] s = s"
| "removeNotations (notation # rest) s =
     removeNotations rest (removePart (indexOf (m_notations s) notation) s)"

definition removeSelectedParts :: "PartListModel \<Rightarrow> PartListModel option" where
  "removeSelectedParts s =
     (let rows = selectedRows s in
      if rows = [] then Some s
      else
        (case notationsAt (m_notations s) rows of
           None \<Rightarrow> None
         | Some notationsToRemove \<Rightarrow>
             Some ((removeNotations notationsToRemove s)\<lparr>m_selectionModel := []\<rparr>)))"

fun openNotations :: "INotationPtr list \<Rightarrow> PartListModel \<Rightarrow> PartListModel" where
  "openNotations [] s = s"
| "openNotations (notation # rest) s = openNotations rest (setOpened notation True s)"

definition openSelectedParts :: "PartListModel \<Rightarrow> PartListModel option" where
  "openSelectedParts s =
     (let rows = selectedRows s in
      if rows = [] then Some s
      else
        (case notationsAt (m_notations s) rows of
           None \<Rightarrow> None
         | Some hs \<Rightarrow> Some ((openNotations hs s)\<lparr>m_currentNotation := Some (last hs)\<rparr>)))"

subsection \<open>apply\<close>

text \<open>The loop of \<^verbatim>\<open>apply()\<close> that keeps the entries the downcast accepts.\<close>

fun collectExcerpts :: "(INotationPtr \<Rightarrow> INotation) \<Rightarrow> INotationPtr list \<Rightarrow> INotationPtr list \<Rightarrow> INotationPtr list" where
  "collectExcerpts hp [] newExcerpts = newExcerpts"
| "collectExcerpts hp (notation # rest) newExcerpts =
     collectExcerpts hp rest
       (if isExcerptNotation (hp notation) then newExcerpts @ [notation] else newExcerpts)"

definition apply_model :: "PartListModel \<Rightarrow> PartListModel" where
  "apply_model s =
     (let newExcerpts = collectExcerpts (heap s) (m_notations s) [];
          master = masterNotation s
      in s\<lparr>heap := (heap s)(master := (heap s master)\<lparr>excerpts := newExcerpts\<rparr>),
           currentNotation := m_currentNotation s\<rparr>)"

subsection \<open>Sequences of operations\<close>

datatype operation =
    Load
  | CreateNewPart
  | SelectPart int
  | RemovePart int
  | SetPartTitle int string
  | SetVoiceVisible int int bool
  | CopyPart int
  | RemoveSelectedParts
  | OpenSelectedParts
  | Apply

fun perform :: "operation \<Rightarrow> PartListModel \<Rightarrow> PartListModel option" where
  "perform Load s = Some (load s)"
| "perform CreateNewPart s = Some (createNewPart s)"
| "perform (SelectPart i) s = Some (selectPart i s)"
| "perform (RemovePart i) s = Some (removePart i s)"
| "perform (SetPartTitle i t) s = Some (setPartTitle i t s)"
| "perform (SetVoiceVisible i v b) s = Some (setVoiceVisible i v b s)"
| "perform (CopyPart i) s = Some (copyPart i s)"
| "perform RemoveSelectedParts s = removeSelectedParts s"
| "perform OpenSelectedParts s = openSelectedParts s"
| "perform Apply s = Some (apply_model s)"

fun run :: "operation list \<Rightarrow> PartListModel \<Rightarrow> PartListModel option" where
  "run [] s = Some s"
| "run (op # ops) s = (case perform op s of None \<Rightarrow> None | Some s' \<Rightarrow> run ops s')"

subsection \<open>The master among the rows\<close>

text \<open>
  \<open>masterFirst\<close>: the first row is the master and no other row is. \<open>consistent\<close>:
  the master and every row are allocated objects and every selected row exists.
  \<open>hostReady\<close>: the master is allocated, its excerpts are allocated and none of them is
  the master itself. \<open>sparesMaster\<close> holds for the operations that are neither a further
  \<open>load\<close> nor a removal aimed at row 0.
\<close>

definition masterFirst :: "PartListModel \<Rightarrow> bool" where
  "masterFirst s =
     (case m_notations s of
        [] \<Rightarrow> False
      | first # rest \<Rightarrow> first = masterNotation s \<and> masterNotation s \<notin> set rest)"

definition consistent :: "PartListModel \<Rightarrow> bool" where
  "consistent s =
     (masterNotation s < nextHandle s \<and>
      (\<forall>h\<in>set (m_notations s). h < nextHandle s) \<and>
      (\<forall>row\<in>set (m_selectionModel s). row < length (m_notations s)))"

definition hostReady :: "PartListModel \<Rightarrow> bool" where
  "hostReady s =
     (masterNotation s < nextHandle s \<and>
      (\<forall>e\<in>set (excerpts (heap s (masterNotation s))). e < nextHandle s \<and> e \<noteq> masterNotation s))"

fun sparesMaster :: "operation \<Rightarrow> PartListModel \<Rightarrow> bool" where
  "sparesMaster Load s = False"
| "sparesMaster (RemovePart i) s = (i \<noteq> 0)"
| "sparesMaster RemoveSelectedParts s = (\<not> isSelected s 0)"
| "sparesMaster other s = True"

fun sparesMasterAll :: "operation list \<Rightarrow> PartListModel \<Rightarrow> bool" where
  "sparesMasterAll [] s = True"
| "sparesMasterAll (op # ops) s =
     (sparesMaster op s \<and>
      (case perform op s of None \<Rightarrow> True | Some s' \<Rightarrow> sparesMasterAll ops s'))"

definition wellFormed :: "PartListModel \<Rightarrow> bool" where
  "wellFormed s = (masterFirst s \<and> consistent s)"

subsection \<open>An example host\<close>

text \<open>
  A score (handle 0) with three excerpts (handles 1, 2 and 3). The first excerpt shows its
  second and fourth voice only; every other notation shows all voices. \<open>newModel\<close> is
  the adapter as its constructor leaves it: no rows, nothing selected, no pending current
  notation.
\<close>

definition exampleNotation :: "INotationPtr \<Rightarrow> INotation" where
  "exampleNotation h =
     \<lparr>title = (if h = 0 then ''Score'' else if h = 1 then ''Violin''
               else if h = 2 then ''Viola'' else ''Cello''),
      voiceVisible = (\<lambda>v. h \<noteq> 1 \<or> v = 1 \<or> v = 3),
      opened = (h = 0),
      isExcerptNotation = (h \<noteq> 0),
      excerpts = (if h = 0 then [1, 2, 3] else [])\<rparr>"

definition newModel :: PartListModel where
  "newModel =
     \<lparr>heap = exampleNotation, nextHandle = 4, currentMasterNotation = 0,
      currentNotation = Some 0, m_notations = [], m_selectionModel = [],
      m_currentNotation = None, emitted = []\<rparr>"

section \<open>Properties\<close>

subsection \<open>Facts used throughout\<close>

lemma m_notations_load_newModel: "m_notations (load newModel) = [0, 1, 2, 3]"
  by (simp add: load_def newModel_def masterNotation_def exampleNotation_def)

lemma heap_load [simp]: "heap (load s) = heap s"
  by (simp add: load_def)

lemma selectPart_eq:
  "selectPart i s =
     (if \<not> isNotationIndexValid s i then s
      else s\<lparr>m_selectionModel := selToggle (nat i) (m_selectionModel s),
             emitted := emitted s @ [DataChanged (Some (nat i)) (Some (nat i))]\<rparr>)"
  by (simp add: selectPart_def isNotationIndexValid_def index_def rowCount_def Let_def)

lemma emitted_load_newModel: "emitted (load newModel) = [ModelReset]"
  by (simp add: load_def newModel_def)

subsection \<open>Indices out of range\<close>

text \<open>
  C8. For an index outside \<open>[0, rowCount)\<close> each of \<open>selectPart\<close>, \<open>removePart\<close>,
  \<open>setPartTitle\<close>, \<open>setVoiceVisible\<close> and \<open>copyPart\<close> returns the state it was
  given: rows, selection, pending current notation, the notations on the heap and the log
  of notifications are all unchanged, so nothing was emitted.
\<close>

theorem invalid_index_is_noop:
  "\<not> isNotationIndexValid s i \<Longrightarrow>
     selectPart i s = s \<and> removePart i s = s \<and> setPartTitle i t s = s \<and>
     setVoiceVisible i v b s = s \<and> copyPart i s = s"
  by (simp add: selectPart_eq removePart_def setPartTitle_def setVoiceVisible_def copyPart_def)

theorem invalid_index_is_noop_witness:
  "\<not> isNotationIndexValid (load newModel) 4 \<and> \<not> isNotationIndexValid (load newModel) (- 1) \<and>
   selectPart 4 (load newModel) = load newModel \<and>
   removePart (- 1) (load newModel) = load newModel \<and>
   setPartTitle 4 ''Flute'' (load newModel) = load newModel \<and>
   setVoiceVisible (- 1) 0 False (load newModel) = load newModel \<and>
   copyPart 4 (load newModel) = load newModel \<and>
   emitted (copyPart 4 (load newModel)) = [ModelReset]"
proof -
  have a: "\<not> isNotationIndexValid (load newModel) 4"
    by (simp add: isNotationIndexValid_def m_notations_load_newModel)
  have b: "\<not> isNotationIndexValid (load newModel) (- 1)"
    by (simp add: isNotationIndexValid_def)
  show ?thesis
    using a b emitted_load_newModel invalid_index_is_noop [OF a, of "''Flute''" 0 False]
      invalid_index_is_noop [OF b, of "''Flute''" 0 False]
    by simp
qed

subsection \<open>Writing the value that is already there\<close>

text \<open>
  C9. \<open>setPartTitle\<close> with the title the row already shows, and \<open>setVoiceVisible\<close>
  with the visibility the voice already has, return the state they were given: nothing
  changes and the log of notifications does not grow.
\<close>

theorem same_value_is_noop:
  "(data s (index s i) RoleTitle = Some (VString t) \<longrightarrow> setPartTitle i t s = s) \<and>
   (data s (index s i) RoleVoicesVisibility = Some (VList vs) \<and> vs ! nat v = b \<longrightarrow>
      setVoiceVisible i v b s = s)"
  by (auto simp: data_def index_def rowCount_def setPartTitle_def setVoiceVisible_def
      isNotationIndexValid_def voicesVisibility_def isVoiceIndexValid_def Let_def
      split: if_splits)

theorem same_value_is_noop_witness:
  "data (load newModel) (index (load newModel) 2) RoleTitle = Some (VString ''Viola'') \<and>
   setPartTitle 2 ''Viola'' (load newModel) = load newModel \<and>
   data (load newModel) (index (load newModel) 1) RoleVoicesVisibility =
     Some (VList [False, True, False, True]) \<and>
   [False, True, False, True] ! nat 2 = False \<and>
   setVoiceVisible 1 2 False (load newModel) = load newModel \<and>
   emitted (setVoiceVisible 1 2 False (load newModel)) = [ModelReset]"
proof -
  have t: "data (load newModel) (index (load newModel) 2) RoleTitle = Some (VString ''Viola'')"
    by (simp add: data_def index_def rowCount_def m_notations_load_newModel)
      (simp add: newModel_def exampleNotation_def)
  have v: "data (load newModel) (index (load newModel) 1) RoleVoicesVisibility =
      Some (VList [False, True, False, True])"
    by (simp add: data_def index_def rowCount_def m_notations_load_newModel
        voicesVisibility_def VOICES_def upt_rec)
      (simp add: newModel_def exampleNotation_def)
  have n: "[False, True, False, True] ! nat 2 = False"
    by (simp add: numeral_2_eq_2)
  from t v n emitted_load_newModel
    same_value_is_noop [where s = "load newModel" and i = 2 and t = "''Viola''"]
    same_value_is_noop [where s = "load newModel" and i = 1
      and vs = "[False, True, False, True]" and v = 2 and b = False]
  show ?thesis by simp
qed

subsection \<open>Toggling the selection\<close>

lemma set_selToggle_twice: "set (selToggle r (selToggle r sel)) = set sel"
  by (auto simp: selToggle_def)

text \<open>
  C10. For a valid index, \<open>selectPart\<close> applied twice gives back the selection: the same
  set of rows is selected, so every row reports the same \<open>isSelected\<close> as before. For
  any index, \<open>selectPart\<close> leaves the rows and the pending current notation alone.
\<close>

theorem selectPart_twice:
  "isNotationIndexValid s i \<Longrightarrow>
     set (m_selectionModel (selectPart i (selectPart i s))) = set (m_selectionModel s) \<and>
     (\<forall>row. isSelected (selectPart i (selectPart i s)) row = isSelected s row) \<and>
     m_notations (selectPart j s) = m_notations s \<and>
     m_currentNotation (selectPart j s) = m_currentNotation s"
  by (simp add: selectPart_eq isNotationIndexValid_def isSelected_def Let_def
      set_selToggle_twice)

theorem selectPart_twice_witness:
  "isNotationIndexValid (selectPart 1 (load newModel)) 1 \<and>
   m_selectionModel (selectPart 1 (load newModel)) = [1] \<and>
   m_selectionModel (selectPart 1 (selectPart 1 (load newModel))) = [] \<and>
   set (m_selectionModel (selectPart 1 (selectPart 1 (selectPart 1 (load newModel))))) = {1} \<and>
   m_notations (selectPart 1 (selectPart 1 (load newModel))) = [0, 1, 2, 3]"
proof -
  have n: "m_notations (selectPart 1 (load newModel)) = [0, 1, 2, 3]"
    by (simp add: selectPart_eq Let_def m_notations_load_newModel)
  have a: "isNotationIndexValid (selectPart 1 (load newModel)) 1"
    by (simp add: isNotationIndexValid_def n)
  have b: "m_selectionModel (selectPart 1 (load newModel)) = [1]"
    by (simp add: selectPart_eq isNotationIndexValid_def m_notations_load_newModel
        selToggle_def Let_def) (simp add: load_def)
  have c: "m_selectionModel (selectPart 1 (selectPart 1 (load newModel))) = []"
    using a b
    by (simp add: selectPart_eq [where i = 1 and s = "selectPart 1 (load newModel)"] selToggle_def Let_def)
  from a b c n selectPart_twice [OF a, of 1] show ?thesis
    by simp
qed

subsection \<open>The title of the visible voices\<close>

lemma digits_starts_with_digit:
  "digits n \<noteq> [] \<and> hd (digits n) \<in> set ''0123456789''"
proof (induction n rule: digits.induct)
  case (1 n)
  show ?case
  proof (cases "n < 10")
    case True
    then have "''0123456789'' ! n \<in> set ''0123456789''"
      by (intro nth_mem) simp
    with True show ?thesis
      by (subst (1 2) digits.simps) simp
  next
    case False
    with 1 show ?thesis
      by (subst (1 2) digits.simps) simp
  qed
qed

lemma QString_number_pos:
  "QString_number (int i + 1) \<noteq> [] \<and> hd (QString_number (int i + 1)) \<in> set ''0123456789''"
  using digits_starts_with_digit [of "nat (int i + 1)"] by (simp add: QString_number_def)

lemma hd_join: "xs \<noteq> [] \<Longrightarrow> hd xs \<noteq> [] \<Longrightarrow> hd (join xs sep) = hd (hd xs)"
  by (induction xs sep rule: join.induct) simp_all

lemma join_numbers_not_word:
  assumes "is \<noteq> []"
  shows "join (map (\<lambda>i. QString_number (int i + 1)) is) sep \<noteq> ''None''"
    and "join (map (\<lambda>i. QString_number (int i + 1)) is) sep \<noteq> ''All''"
proof -
  let ?j = "join (map (\<lambda>i. QString_number (int i + 1)) is) sep"
  from assms obtain i rest where "is = i # rest" by (cases "is") auto
  then have "hd ?j = hd (QString_number (int i + 1))"
    using QString_number_pos [of i] by (simp add: hd_join)
  then have d: "hd ?j \<in> set ''0123456789''"
    using QString_number_pos [of i] by simp
  from d show "?j \<noteq> ''None''" by auto
  from d show "?j \<noteq> ''All''" by auto
qed

lemma visibleVoices_eq:
  "visibleVoices vs i acc =
     acc @ map (\<lambda>i. QString_number (int i + 1)) (filter (\<lambda>i. vs ! i) [i..<length vs])"
proof (induction vs i acc rule: visibleVoices.induct)
  case (1 vs i acc)
  show ?case
  proof (cases "i < length vs")
    case True
    with 1 show ?thesis
      by (subst visibleVoices.simps) (simp add: upt_conv_Cons)
  next
    case False
    then show ?thesis
      by (subst visibleVoices.simps) simp
  qed
qed

lemma filter_upt_empty: "filter (\<lambda>i. vs ! i) [0..<length vs] = [] \<longleftrightarrow> (\<forall>v\<in>set vs. \<not> v)"
  by (auto simp: filter_empty_conv in_set_conv_nth)

lemma filter_upt_all:
  "length (filter (\<lambda>i. vs ! i) [0..<length vs]) = length vs \<longleftrightarrow> (\<forall>v\<in>set vs. v)"
proof
  assume "length (filter (\<lambda>i. vs ! i) [0..<length vs]) = length vs"
  then have "length (filter (\<lambda>i. vs ! i) [0..<length vs]) = length [0..<length vs]" by simp
  then have "\<forall>i\<in>set [0..<length vs]. vs ! i"
    by (metis length_filter_less less_irrefl)
  then show "\<forall>v\<in>set vs. v" by (auto simp: in_set_conv_nth)
next
  assume "\<forall>v\<in>set vs. v"
  then have "filter (\<lambda>i. vs ! i) [0..<length vs] = [0..<length vs]"
    by (auto simp: filter_id_conv)
  then show "length (filter (\<lambda>i. vs ! i) [0..<length vs]) = length vs" by simp
qed

lemma title_cases:
  fixes vs :: "bool list"
  assumes t: "t = (if filter (\<lambda>i. vs ! i) [0..<length vs] = [] then ''None''
      else if length (filter (\<lambda>i. vs ! i) [0..<length vs]) = length vs then ''All''
      else join (map (\<lambda>i. QString_number (int i + 1)) (filter (\<lambda>i. vs ! i) [0..<length vs])) '', '')"
    and ne: "vs \<noteq> []"
  shows "(t = ''None'' \<longleftrightarrow> (\<forall>v\<in>set vs. \<not> v))"
    and "(t = ''All'' \<longleftrightarrow> (\<forall>v\<in>set vs. v))"
    and "(\<exists>v\<in>set vs. v) \<and> (\<exists>v\<in>set vs. \<not> v) \<longrightarrow>
          t = join (map (\<lambda>i. QString_number (int i + 1)) (filter (\<lambda>i. vs ! i) [0..<length vs])) '', ''"
proof -
  let ?is = "filter (\<lambda>i. vs ! i) [0..<length vs]"
  let ?j = "join (map (\<lambda>i. QString_number (int i + 1)) ?is) '', ''"
  have j: "?is \<noteq> [] \<Longrightarrow> ?j \<noteq> ''None'' \<and> ?j \<noteq> ''All''"
    using join_numbers_not_word [of ?is "'', ''"] by blast
  have e: "?is = [] \<longleftrightarrow> (\<forall>v\<in>set vs. \<not> v)" by (rule filter_upt_empty)
  have a: "length ?is = length vs \<longleftrightarrow> (\<forall>v\<in>set vs. v)" by (rule filter_upt_all)
  from ne obtain v where v: "v \<in> set vs" by (cases vs) auto
  show "(t = ''None'' \<longleftrightarrow> (\<forall>v\<in>set vs. \<not> v))"
    using j e by (auto simp: t)
  show "(t = ''All'' \<longleftrightarrow> (\<forall>v\<in>set vs. v))"
    using j e a v by (auto simp: t)
  show "(\<exists>v\<in>set vs. v) \<and> (\<exists>v\<in>set vs. \<not> v) \<longrightarrow> t = ?j"
    using e a by (auto simp: t)
qed

lemma data_voices:
  "isNotationIndexValid s row \<Longrightarrow>
     data s (index s row) RoleVoicesVisibility =
       Some (VList (voicesVisibility s (Some (m_notations s ! nat row)))) \<and>
     data s (index s row) RoleVoicesTitle =
       Some (VString (formatVoicesTitle s (Some (m_notations s ! nat row))))"
  by (auto simp: isNotationIndexValid_def index_def rowCount_def data_def)

lemma voicesVisibility_not_empty: "voicesVisibility s (Some h) \<noteq> []"
  by (simp add: voicesVisibility_def VOICES_def)

lemma number_2_4:
  "join (map (\<lambda>i. QString_number (int i + 1))
     (filter (\<lambda>i. [False, True, False, True] ! i) [0..<length [False, True, False, True]])) '', '' = ''2, 4''"
  by code_simp

text \<open>
  C1, as the code has it. For every row the \<open>voicesTitle\<close> field is \<open>None\<close> exactly when
  no entry of the row's \<open>voicesVisibility\<close> is true, \<open>All\<close> exactly when every entry
  is true, and otherwise the numbers of the true entries, counted from one, ascending and
  joined by a comma and a space. For the vector false, true, false, true that is \<open>2, 4\<close>.
\<close>

theorem voicesTitle_of_visibility:
  "isNotationIndexValid s row \<Longrightarrow>
     \<exists>vs t. data s (index s row) RoleVoicesVisibility = Some (VList vs) \<and>
            data s (index s row) RoleVoicesTitle = Some (VString t) \<and>
            (t = ''None'' \<longleftrightarrow> (\<forall>v\<in>set vs. \<not> v)) \<and>
            (t = ''All'' \<longleftrightarrow> (\<forall>v\<in>set vs. v)) \<and>
            ((\<exists>v\<in>set vs. v) \<and> (\<exists>v\<in>set vs. \<not> v) \<longrightarrow>
               t = join (map (\<lambda>i. QString_number (int i + 1))
                     (filter (\<lambda>i. vs ! i) [0..<length vs])) '', '') \<and>
            (vs = [False, True, False, True] \<longrightarrow> t = ''2, 4'')"
proof -
  assume v: "isNotationIndexValid s row"
  let ?n = "Some (m_notations s ! nat row)"
  let ?vs = "voicesVisibility s ?n"
  let ?t = "formatVoicesTitle s ?n"
  have ne: "?vs \<noteq> []" by (rule voicesVisibility_not_empty)
  have t: "?t = (if filter (\<lambda>i. ?vs ! i) [0..<length ?vs] = [] then ''None''
      else if length (filter (\<lambda>i. ?vs ! i) [0..<length ?vs]) = length ?vs then ''All''
      else join (map (\<lambda>i. QString_number (int i + 1))
             (filter (\<lambda>i. ?vs ! i) [0..<length ?vs])) '', '')"
    by (simp add: formatVoicesTitle_def visibleVoices_eq Let_def)
  note c = title_cases [OF t ne]
  have ex: "?vs = [False, True, False, True] \<longrightarrow> ?t = ''2, 4''"
  proof
    assume e: "?vs = [False, True, False, True]"
    then have "(\<exists>v\<in>set ?vs. v) \<and> (\<exists>v\<in>set ?vs. \<not> v)" by simp
    with c(3) have "?t = join (map (\<lambda>i. QString_number (int i + 1))
                     (filter (\<lambda>i. ?vs ! i) [0..<length ?vs])) '', ''" by blast
    then show "?t = ''2, 4''" by (simp only: e number_2_4)
  qed
  from data_voices [OF v] c ex show ?thesis by blast
qed

lemma row1_voices:
  "data (load newModel) (index (load newModel) 1) RoleVoicesVisibility =
      Some (VList [False, True, False, True])"
  by (simp add: data_def index_def rowCount_def m_notations_load_newModel
        voicesVisibility_def VOICES_def upt_rec)
      (simp add: load_def newModel_def exampleNotation_def)

theorem voicesTitle_of_visibility_witness:
  "isNotationIndexValid (load newModel) 1 \<and>
   data (load newModel) (index (load newModel) 1) RoleVoicesVisibility =
     Some (VList [False, True, False, True]) \<and>
   data (load newModel) (index (load newModel) 1) RoleVoicesTitle = Some (VString ''2, 4'')"
proof -
  have a: "isNotationIndexValid (load newModel) 1"
    by (simp add: isNotationIndexValid_def m_notations_load_newModel)
  from voicesTitle_of_visibility [OF a] row1_voices
  have "data (load newModel) (index (load newModel) 1) RoleVoicesTitle = Some (VString ''2, 4'')"
    by auto
  with a row1_voices show ?thesis by simp
qed

text \<open>
  The example of C1 as the claim gives it does not hold: the row whose vector is false, true,
  false, true is titled \<open>2, 4\<close>, not \<open>2, 3\<close>.
\<close>

theorem voicesTitle_example_counterexample:
  "data (load newModel) (index (load newModel) 1) RoleVoicesVisibility =
     Some (VList [False, True, False, True]) \<and>
   data (load newModel) (index (load newModel) 1) RoleVoicesTitle = Some (VString ''2, 4'') \<and>
   data (load newModel) (index (load newModel) 1) RoleVoicesTitle \<noteq> Some (VString ''2, 3'')"
proof -
  have i: "index (load newModel) 1 = Some 1"
    by (simp add: index_def rowCount_def m_notations_load_newModel)
  have v: "voicesVisibility (load newModel) (Some 1) = [False, True, False, True]"
    by (simp add: voicesVisibility_def VOICES_def upt_rec)
      (simp add: load_def newModel_def exampleNotation_def)
  have l: "visibleVoices [False, True, False, True] 0 [] = [''2'', ''4'']"
    by code_simp
  have "formatVoicesTitle (load newModel) (Some 1) = ''2, 4''"
    unfolding formatVoicesTitle_def Let_def v l by simp
  then show ?thesis
    by (simp add: row1_voices) (simp add: i data_def m_notations_load_newModel)
qed

subsection \<open>Loading\<close>

lemma appendExcerpts_append: "appendExcerpts ns es = ns @ es"
  by (induction es arbitrary: ns) simp_all

lemma m_notations_load:
  "m_notations (load s) = m_notations s @ masterNotation s # excerpts (heap s (masterNotation s))"
  by (simp add: load_def appendExcerpts_append)

lemma masterNotation_load [simp]: "masterNotation (load s) = masterNotation s"
  by (simp add: load_def masterNotation_def)

text \<open>
  C2, as the code has it. \<open>load\<close> appends the master and then the master's excerpts, in
  the host's order, to the rows that are already there. When there are none (the adapter as
  constructed) and the master is not one of its own excerpts, row 0 is the master afterwards
  and \<open>isMain\<close> is true for row 0 and for no other row.
\<close>

theorem load_appends:
  "m_notations (load s) = m_notations s @ masterNotation s # excerpts (heap s (masterNotation s)) \<and>
   (m_notations s = [] \<and> masterNotation s \<notin> set (excerpts (heap s (masterNotation s))) \<longrightarrow>
      m_notations (load s) ! 0 = masterNotation s \<and>
      (\<forall>row. data (load s) (index (load s) row) RoleIsMain = Some (VBool True) \<longleftrightarrow> row = 0))"
proof -
  let ?es = "excerpts (heap s (masterNotation s))"
  have rows: "m_notations (load s) = m_notations s @ masterNotation s # ?es"
    by (rule m_notations_load)
  have "data (load s) (index (load s) row) RoleIsMain = Some (VBool True) \<longleftrightarrow> row = 0"
    if e: "m_notations s = []" and m: "masterNotation s \<notin> set ?es" for row
  proof (cases "0 \<le> row \<and> row < rowCount (load s)")
    case False
    then show ?thesis
      by (auto simp: index_def data_def rowCount_def rows)
  next
    case True
    then have i: "index (load s) row = Some (nat row)" and lt: "nat row < Suc (length ?es)"
      by (auto simp: index_def rowCount_def rows e)
    show ?thesis
    proof (cases "nat row")
      case 0
      with True i lt show ?thesis
        by (simp add: data_def rows e)
    next
      case (Suc k)
      with lt have "?es ! k \<in> set ?es" by simp
      with m have "?es ! k \<noteq> masterNotation s" by metis
      with True i lt Suc show ?thesis
        by (auto simp: data_def rows e)
    qed
  qed
  then show ?thesis
    by (simp add: rows)
qed

theorem load_appends_witness:
  "m_notations newModel = [] \<and>
   masterNotation newModel \<notin> set (excerpts (heap newModel (masterNotation newModel))) \<and>
   m_notations (load newModel) = [0, 1, 2, 3] \<and>
   data (load newModel) (index (load newModel) 0) RoleIsMain = Some (VBool True) \<and>
   data (load newModel) (index (load newModel) 2) RoleIsMain \<noteq> Some (VBool True)"
proof -
  have e: "m_notations newModel = []"
    by (simp add: newModel_def)
  have m: "masterNotation newModel \<notin> set (excerpts (heap newModel (masterNotation newModel)))"
    by (simp add: newModel_def masterNotation_def exampleNotation_def)
  from e m load_appends [of newModel]
  have "\<forall>row. data (load newModel) (index (load newModel) row) RoleIsMain = Some (VBool True)
      \<longleftrightarrow> row = 0"
    by blast
  then have "data (load newModel) (index (load newModel) 0) RoleIsMain = Some (VBool True)"
    and "data (load newModel) (index (load newModel) 2) RoleIsMain \<noteq> Some (VBool True)"
    by simp_all
  with e m m_notations_load_newModel show ?thesis
    by simp
qed

lemma m_notations_load_load_newModel:
  "m_notations (load (load newModel)) = [0, 1, 2, 3, 0, 1, 2, 3]"
  by (simp add: m_notations_load [of "load newModel"] m_notations_load_newModel)
    (simp add: newModel_def masterNotation_def exampleNotation_def)

text \<open>
  C2 as the claim gives it does not hold: \<open>load\<close> does not empty the rows first. A second
  \<open>load\<close> leaves eight rows, and row 4 is the master once more.
\<close>

theorem load_twice_counterexample:
  "m_notations (load (load newModel)) = [0, 1, 2, 3, 0, 1, 2, 3] \<and>
   m_notations (load (load newModel)) \<noteq>
     masterNotation (load newModel) # excerpts (heap (load newModel) (masterNotation (load newModel))) \<and>
   data (load (load newModel)) (index (load (load newModel)) 4) RoleIsMain = Some (VBool True)"
  by (simp add: m_notations_load_load_newModel index_def rowCount_def data_def)
    (simp add: newModel_def masterNotation_def exampleNotation_def)

subsection \<open>Committing\<close>

lemma collectExcerpts_filter:
  "collectExcerpts hp ns acc = acc @ filter (\<lambda>h. isExcerptNotation (hp h)) ns"
  by (induction ns arbitrary: acc) simp_all

text \<open>
  C4. \<open>apply\<close> hands the host the rows that are excerpts, in the order of the rows, as
  the master's new excerpts; a master that is not itself an excerpt is not among them. The
  host's current notation becomes the pending current notation. The rows stay as they are.
\<close>

theorem apply_model_pushes_excerpts:
  "excerpts (heap (apply_model s) (masterNotation s)) =
     filter (\<lambda>h. isExcerptNotation (heap s h)) (m_notations s) \<and>
   (\<not> isExcerptNotation (heap s (masterNotation s)) \<longrightarrow>
      masterNotation s \<notin> set (excerpts (heap (apply_model s) (masterNotation s)))) \<and>
   currentNotation (apply_model s) = m_currentNotation s \<and>
   masterNotation (apply_model s) = masterNotation s \<and>
   m_notations (apply_model s) = m_notations s"
  by (simp add: apply_model_def collectExcerpts_filter Let_def masterNotation_def)

theorem apply_model_pushes_excerpts_witness:
  "\<not> isExcerptNotation (heap (createNewPart (load newModel)) (masterNotation (createNewPart (load newModel)))) \<and>
   m_notations (createNewPart (load newModel)) = [0, 1, 2, 3, 4] \<and>
   excerpts (heap (apply_model (createNewPart (load newModel))) 0) = [1, 2, 3, 4] \<and>
   currentNotation (apply_model (createNewPart (load newModel))) = Some 4"
proof -
  let ?s = "createNewPart (load newModel)"
  have m: "masterNotation ?s = 0"
    by (simp add: masterNotation_def createNewPart_def newExcerptNotation_def setTitle_def
        setOpened_def insertNotation_def Let_def load_def newModel_def)
  have h: "map (\<lambda>h. isExcerptNotation (heap ?s h)) [0, 1, 2, 3, 4] = [False, True, True, True, True]"
    by (simp add: createNewPart_def newExcerptNotation_def setTitle_def
        setOpened_def insertNotation_def Let_def)
      (simp add: load_def newModel_def exampleNotation_def)
  have r: "m_notations ?s = [0, 1, 2, 3, 4]"
    by (simp add: createNewPart_def newExcerptNotation_def setTitle_def
        setOpened_def insertNotation_def Let_def m_notations_load_newModel)
      (simp add: load_def newModel_def)
  have c: "m_currentNotation ?s = Some 4"
    by (simp add: createNewPart_def newExcerptNotation_def setTitle_def
        setOpened_def insertNotation_def Let_def)
      (simp add: load_def newModel_def)
  from h apply_model_pushes_excerpts [of ?s] show ?thesis
    by (simp add: m r c)
qed

subsection \<open>Creating and copying\<close>

text \<open>
  C6. \<open>createNewPart\<close> appends the new notation: its row is the former row count. The
  new row is not the master (which exists before the call, so the new object differs from
  it), its title is \<open>Part\<close>, the notation is opened, and it is the pending current
  notation.
\<close>

theorem createNewPart_appends:
  "masterNotation s < nextHandle s \<Longrightarrow>
     m_notations (createNewPart s) = m_notations s @ [nextHandle s] \<and>
     index (createNewPart s) (rowCount s) = Some (length (m_notations s)) \<and>
     data (createNewPart s) (index (createNewPart s) (rowCount s)) RoleIsMain = Some (VBool False) \<and>
     data (createNewPart s) (index (createNewPart s) (rowCount s)) RoleTitle = Some (VString ''Part'') \<and>
     opened (heap (createNewPart s) (nextHandle s)) \<and>
     m_currentNotation (createNewPart s) = Some (nextHandle s)"
  by (simp add: createNewPart_def newExcerptNotation_def setTitle_def setOpened_def
      insertNotation_def Let_def index_def rowCount_def data_def masterNotation_def)

theorem createNewPart_appends_witness:
  "masterNotation (load newModel) < nextHandle (load newModel) \<and>
   m_notations (createNewPart (load newModel)) = [0, 1, 2, 3, 4] \<and>
   rowCount (load newModel) = 4 \<and>
   data (createNewPart (load newModel)) (index (createNewPart (load newModel)) 4) RoleIsMain =
     Some (VBool False) \<and>
   opened (heap (createNewPart (load newModel)) 4) \<and>
   m_currentNotation (createNewPart (load newModel)) = Some 4"
proof -
  have a: "masterNotation (load newModel) < nextHandle (load newModel)"
    by (simp add: load_def newModel_def masterNotation_def)
  have n: "nextHandle (load newModel) = 4"
    by (simp add: load_def newModel_def)
  have r: "rowCount (load newModel) = 4"
    by (simp add: rowCount_def m_notations_load_newModel)
  from createNewPart_appends [OF a]
  have "m_notations (createNewPart (load newModel)) = m_notations (load newModel) @ [nextHandle (load newModel)]"
    and "data (createNewPart (load newModel))
      (index (createNewPart (load newModel)) (rowCount (load newModel))) RoleIsMain = Some (VBool False)"
    and "opened (heap (createNewPart (load newModel)) (nextHandle (load newModel)))"
    and "m_currentNotation (createNewPart (load newModel)) = Some (nextHandle (load newModel))"
    by blast+
  with a show ?thesis
    by (simp add: n r m_notations_load_newModel)
qed

lemma copyPart_rows:
  "isNotationIndexValid s i \<Longrightarrow>
     m_notations (copyPart i s) =
       take (nat i + 1) (m_notations s) @ [nextHandle s] @ drop (nat i + 1) (m_notations s)"
  by (simp add: copyPart_def clone_def setTitle_def insertNotation_def Let_def nat_add_distrib
      isNotationIndexValid_def)

lemma copyPart_heap_clone:
  "isNotationIndexValid s i \<Longrightarrow>
     title (heap (copyPart i s) (nextHandle s)) =
       title (heap s (m_notations s ! nat i)) @ '' (copy)''"
  by (simp add: copyPart_def clone_def setTitle_def insertNotation_def Let_def)

lemma removePart_title [simp]: "title (heap (removePart i s) h) = title (heap s h)"
  by (simp add: removePart_def setOpened_def Let_def)

lemma removePart_rows:
  "isNotationIndexValid s i \<Longrightarrow>
     m_notations (removePart i s) = take (nat i) (m_notations s) @ drop (Suc (nat i)) (m_notations s)"
  by (simp add: removePart_def setOpened_def Let_def)

text \<open>
  C7. For a valid index \<open>i\<close>, \<open>copyPart\<close> puts the clone at row \<open>i + 1\<close>, right
  behind its source. The clone's title is the source's title followed by \<open>(copy)\<close>.
  Removing the source afterwards moves the clone to row \<open>i\<close> and leaves its title as it
  is.
\<close>

theorem copyPart_inserts_after:
  "isNotationIndexValid s i \<Longrightarrow>
     m_notations (copyPart i s) =
       take (nat i + 1) (m_notations s) @ [nextHandle s] @ drop (nat i + 1) (m_notations s) \<and>
     index (copyPart i s) (i + 1) = Some (nat i + 1) \<and>
     m_notations (copyPart i s) ! (nat i + 1) = nextHandle s \<and>
     data (copyPart i s) (index (copyPart i s) (i + 1)) RoleTitle =
       Some (VString (title (heap s (m_notations s ! nat i)) @ '' (copy)'')) \<and>
     m_notations (removePart i (copyPart i s)) ! nat i = nextHandle s \<and>
     data (removePart i (copyPart i s)) (index (removePart i (copyPart i s)) i) RoleTitle =
       Some (VString (title (heap s (m_notations s ! nat i)) @ '' (copy)''))"
proof -
  assume v: "isNotationIndexValid s i"
  let ?ns = "m_notations s"
  let ?c = "copyPart i s"
  have lt: "nat i < length ?ns" and nn: "0 \<le> i"
    using v by (auto simp: isNotationIndexValid_def)
  have rows: "m_notations ?c = take (nat i + 1) ?ns @ [nextHandle s] @ drop (nat i + 1) ?ns"
    by (rule copyPart_rows [OF v])
  have len: "length (m_notations ?c) = Suc (length ?ns)"
    using lt by (simp add: rows)
  have at: "m_notations ?c ! (nat i + 1) = nextHandle s"
    using lt by (simp add: rows nth_append)
  have idx: "index ?c (i + 1) = Some (nat i + 1)"
    using lt nn by (simp add: index_def rowCount_def len nat_add_distrib)
  have t: "data ?c (index ?c (i + 1)) RoleTitle =
      Some (VString (title (heap s (?ns ! nat i)) @ '' (copy)''))"
    using lt at by (simp add: idx data_def len copyPart_heap_clone [OF v])
  have v': "isNotationIndexValid ?c i"
    using v by (simp add: isNotationIndexValid_def len)
  let ?r = "removePart i ?c"
  have rows': "m_notations ?r = take (nat i) (m_notations ?c) @ drop (Suc (nat i)) (m_notations ?c)"
    by (rule removePart_rows [OF v'])
  have len': "length (m_notations ?r) = length ?ns"
    using lt by (simp add: rows' len)
  have at': "m_notations ?r ! nat i = nextHandle s"
    using lt at by (simp add: rows' nth_append len min_def)
  have idx': "index ?r i = Some (nat i)"
    using lt nn by (simp add: index_def rowCount_def len')
  have t': "data ?r (index ?r i) RoleTitle =
      Some (VString (title (heap s (?ns ! nat i)) @ '' (copy)''))"
    using lt at' by (simp add: idx' data_def len' copyPart_heap_clone [OF v])
  from rows idx at t at' t' show ?thesis by simp
qed

theorem copyPart_inserts_after_witness:
  "isNotationIndexValid (load newModel) 1 \<and>
   m_notations (copyPart 1 (load newModel)) = [0, 1, 4, 2, 3] \<and>
   data (copyPart 1 (load newModel)) (index (copyPart 1 (load newModel)) 2) RoleTitle =
     Some (VString ''Violin (copy)'') \<and>
   data (removePart 1 (copyPart 1 (load newModel)))
     (index (removePart 1 (copyPart 1 (load newModel))) 1) RoleTitle =
     Some (VString ''Violin (copy)'')"
proof -
  have a: "isNotationIndexValid (load newModel) 1"
    by (simp add: isNotationIndexValid_def m_notations_load_newModel)
  have n: "nextHandle (load newModel) = 4"
    by (simp add: load_def newModel_def)
  have t: "title (heap (load newModel) 1) = ''Violin''"
    by (simp add: load_def newModel_def exampleNotation_def)
  from copyPart_inserts_after [OF a]
  have "m_notations (copyPart 1 (load newModel)) =
      take (nat 1 + 1) (m_notations (load newModel)) @ [nextHandle (load newModel)] @
        drop (nat 1 + 1) (m_notations (load newModel))"
    and "data (copyPart 1 (load newModel)) (index (copyPart 1 (load newModel)) (1 + 1)) RoleTitle =
      Some (VString (title (heap (load newModel) (m_notations (load newModel) ! nat 1)) @ '' (copy)''))"
    and "data (removePart 1 (copyPart 1 (load newModel)))
      (index (removePart 1 (copyPart 1 (load newModel))) 1) RoleTitle =
      Some (VString (title (heap (load newModel) (m_notations (load newModel) ! nat 1)) @ '' (copy)''))"
    by blast+
  then show ?thesis
    using t by (simp add: a n m_notations_load_newModel)
qed

subsection \<open>Removing the selected rows\<close>

lemma indexOfFrom_absent: "x \<notin> set xs \<Longrightarrow> indexOfFrom xs x i = - 1"
  by (induction xs arbitrary: i) auto

lemma indexOfFrom_present:
  "x \<in> set xs \<Longrightarrow>
     \<exists>k. indexOfFrom xs x i = i + int k \<and> k < length xs \<and>
         take k xs @ drop (Suc k) xs = remove1 x xs"
proof (induction xs arbitrary: i)
  case Nil
  then show ?case by simp
next
  case (Cons y ys)
  show ?case
  proof (cases "y = x")
    case True
    then have "indexOfFrom (y # ys) x i = i + int 0 \<and> 0 < length (y # ys) \<and>
        take 0 (y # ys) @ drop (Suc 0) (y # ys) = remove1 x (y # ys)"
      by simp
    then show ?thesis by blast
  next
    case False
    with Cons.prems have "x \<in> set ys" by simp
    from Cons.IH [OF this, of "i + 1"] obtain k where
      k: "indexOfFrom ys x (i + 1) = i + 1 + int k" "k < length ys"
        "take k ys @ drop (Suc k) ys = remove1 x ys"
      by blast
    with False have "indexOfFrom (y # ys) x i = i + int (Suc k) \<and> Suc k < length (y # ys) \<and>
        take (Suc k) (y # ys) @ drop (Suc (Suc k)) (y # ys) = remove1 x (y # ys)"
      by simp
    then show ?thesis by blast
  qed
qed

lemma removePart_indexOf_rows:
  "m_notations (removePart (indexOf (m_notations s) h) s) = remove1 h (m_notations s)"
proof (cases "h \<in> set (m_notations s)")
  case False
  then have "indexOf (m_notations s) h = - 1"
    by (simp add: indexOf_def indexOfFrom_absent)
  with False show ?thesis
    by (simp add: removePart_def isNotationIndexValid_def remove1_idem)
next
  case True
  from indexOfFrom_present [OF this, of 0] obtain k where
    k: "indexOf (m_notations s) h = int k" "k < length (m_notations s)"
      "take k (m_notations s) @ drop (Suc k) (m_notations s) = remove1 h (m_notations s)"
    by (auto simp: indexOf_def)
  then show ?thesis
    by (simp add: removePart_def isNotationIndexValid_def setOpened_def Let_def)
qed

lemma removeNotations_rows:
  "m_notations (removeNotations hs s) = fold remove1 hs (m_notations s)"
  by (induction hs arbitrary: s) (simp_all add: removePart_indexOf_rows)

lemma fold_remove1_distinct:
  "distinct xs \<Longrightarrow> fold remove1 hs xs = filter (\<lambda>x. x \<notin> set hs) xs"
proof (induction hs arbitrary: xs)
  case Nil
  then show ?case by simp
next
  case (Cons h hs)
  from Cons.prems have r: "remove1 h xs = filter (\<lambda>x. x \<noteq> h) xs"
    by (simp add: distinct_remove1_removeAll removeAll_filter_not_eq) metis
  from Cons.prems have "distinct (remove1 h xs)" by simp
  from Cons.IH [OF this] show ?case
    by (simp add: r conj_commute)
qed

lemma notationsAt_Some:
  "\<forall>row\<in>set rows. row < length ns \<Longrightarrow> notationsAt ns rows = Some (map (\<lambda>row. ns ! row) rows)"
  by (induction rows) simp_all

lemma nths_agree:
  "(\<And>i. i < length xs \<Longrightarrow> i \<in> A \<longleftrightarrow> i \<in> B) \<Longrightarrow> nths xs A = nths xs B"
  unfolding nths_def
  by (rule arg_cong [where f = "map fst"], rule filter_cong) (auto simp: set_zip)

lemma filter_handles_nths:
  assumes d: "distinct xs" and r: "\<forall>row\<in>set rows. row < length xs"
  shows "filter (\<lambda>x. x \<notin> set (map (\<lambda>row. xs ! row) rows)) xs = nths xs {i. i \<notin> set rows}"
proof -
  have "filter (\<lambda>x. x \<notin> set (map (\<lambda>row. xs ! row) rows)) xs =
      nths xs {i. i < length xs \<and> xs ! i \<notin> set (map (\<lambda>row. xs ! row) rows)}"
    by (rule filter_eq_nths)
  also have "\<dots> = nths xs {i. i \<notin> set rows}"
  proof (rule nths_agree)
    fix i
    assume i: "i < length xs"
    have "xs ! i \<in> set (map (\<lambda>row. xs ! row) rows) \<longleftrightarrow> i \<in> set rows"
    proof
      assume "xs ! i \<in> set (map (\<lambda>row. xs ! row) rows)"
      then obtain row where "row \<in> set rows" "xs ! i = xs ! row" by auto
      with d r i show "i \<in> set rows"
        by (simp add: nth_eq_iff_index_eq)
    qed auto
    with i show "i \<in> {i. i < length xs \<and> xs ! i \<notin> set (map (\<lambda>row. xs ! row) rows)}
        \<longleftrightarrow> i \<in> {i. i \<notin> set rows}"
      by simp
  qed
  finally show ?thesis .
qed

text \<open>
  C5, as the code has it. When the rows hold pairwise different notations and every selected
  row exists, \<open>removeSelectedParts\<close> completes, the rows left are exactly the rows that
  were not selected, in their order, whatever the order of the selection, and nothing is
  selected afterwards. With rows A, B, C, D and B and D selected, A and C are left.
\<close>

theorem removeSelectedParts_removes_selected:
  assumes "distinct (m_notations s)"
    and "\<forall>row\<in>set (selectedRows s). row < length (m_notations s)"
  shows "\<exists>s'. removeSelectedParts s = Some s' \<and>
           m_notations s' = nths (m_notations s) {row. \<not> isSelected s row} \<and>
           \<not> hasSelection s' \<and> selectedRows s' = []"
proof (cases "selectedRows s = []")
  case True
  then have "removeSelectedParts s = Some s" and "{row. \<not> isSelected s row} = UNIV"
    by (simp_all add: removeSelectedParts_def isSelected_def selectedRows_def)
  with True show ?thesis
    by (simp add: nths_all hasSelection_def selectedRows_def)
next
  case False
  let ?hs = "map (\<lambda>row. m_notations s ! row) (selectedRows s)"
  let ?s' = "(removeNotations ?hs s)\<lparr>m_selectionModel := []\<rparr>"
  from False assms(2) have "removeSelectedParts s = Some ?s'"
    by (simp add: removeSelectedParts_def notationsAt_Some)
  moreover have "m_notations ?s' = nths (m_notations s) {row. \<not> isSelected s row}"
  proof -
    have "m_notations ?s' = fold remove1 ?hs (m_notations s)"
      by (simp add: removeNotations_rows)
    also have "\<dots> = filter (\<lambda>x. x \<notin> set ?hs) (m_notations s)"
      by (rule fold_remove1_distinct [OF assms(1)])
    also have "\<dots> = nths (m_notations s) {i. i \<notin> set (selectedRows s)}"
      by (rule filter_handles_nths [OF assms])
    finally show ?thesis
      by (simp add: isSelected_def selectedRows_def)
  qed
  ultimately show ?thesis
    by (simp add: hasSelection_def selectedRows_def)
qed

theorem removeSelectedParts_removes_selected_witness:
  "distinct (m_notations (selectPart 1 (selectPart 3 (load newModel)))) \<and>
   m_notations (selectPart 1 (selectPart 3 (load newModel))) = [0, 1, 2, 3] \<and>
   selectedRows (selectPart 1 (selectPart 3 (load newModel))) = [3, 1] \<and>
   (\<exists>s'. removeSelectedParts (selectPart 1 (selectPart 3 (load newModel))) = Some s' \<and>
      m_notations s' = [0, 2] \<and> selectedRows s' = [])"
proof -
  let ?s = "selectPart 1 (selectPart 3 (load newModel))"
  have n: "m_notations ?s = [0, 1, 2, 3]"
    by (simp add: selectPart_eq Let_def m_notations_load_newModel)
  have r: "selectedRows ?s = [3, 1]"
    by (simp add: selectedRows_def selectPart_eq isNotationIndexValid_def Let_def
        m_notations_load_newModel selToggle_def) (simp add: load_def)
  have d: "distinct (m_notations ?s)"
    by (simp add: n)
  have b: "\<forall>row\<in>set (selectedRows ?s). row < length (m_notations ?s)"
    by (simp add: n r)
  have k: "nths (m_notations ?s) {row. \<not> isSelected ?s row} = [0, 2]"
    using r by (simp add: n isSelected_def selectedRows_def nths_Cons)
  from removeSelectedParts_removes_selected [OF d b] obtain s' where
    "removeSelectedParts ?s = Some s'" "m_notations s' = [0, 2]" "selectedRows s' = []"
    unfolding k by blast
  with d n r show ?thesis by blast
qed

text \<open>
  C5 as the claim gives it, for every state, does not hold: the notation of a selected row is
  looked up by identity and removed where it is found first. After two \<open>load\<close>s every
  notation is there twice; with row 4 (the second master) selected, row 0 is removed.
\<close>

theorem removeSelectedParts_duplicate_counterexample:
  "m_notations (selectPart 4 (load (load newModel))) = [0, 1, 2, 3, 0, 1, 2, 3] \<and>
   selectedRows (selectPart 4 (load (load newModel))) = [4] \<and>
   nths (m_notations (selectPart 4 (load (load newModel))))
     {row. \<not> isSelected (selectPart 4 (load (load newModel))) row} = [0, 1, 2, 3, 1, 2, 3] \<and>
   map_option m_notations (removeSelectedParts (selectPart 4 (load (load newModel)))) =
     Some [1, 2, 3, 0, 1, 2, 3] \<and>
   map_option m_notations (removeSelectedParts (selectPart 4 (load (load newModel)))) \<noteq>
     Some (nths (m_notations (selectPart 4 (load (load newModel))))
       {row. \<not> isSelected (selectPart 4 (load (load newModel))) row})"
proof -
  let ?s = "selectPart 4 (load (load newModel))"
  have n: "m_notations ?s = [0, 1, 2, 3, 0, 1, 2, 3]"
    by (simp add: selectPart_eq Let_def m_notations_load_load_newModel)
  have r: "selectedRows ?s = [4]"
    by (simp add: selectedRows_def selectPart_eq isNotationIndexValid_def Let_def
        m_notations_load_load_newModel selToggle_def) (simp add: load_def)
  have k: "nths (m_notations ?s) {row. \<not> isSelected ?s row} = [0, 1, 2, 3, 1, 2, 3]"
    using r by (simp add: n isSelected_def selectedRows_def nths_Cons)
  have a: "notationsAt (m_notations ?s) [4] = Some [0]"
    by (simp add: n)
  have f: "fold remove1 [0] (m_notations ?s) = [1, 2, 3, 0, 1, 2, 3]"
    unfolding n by simp
  have "removeSelectedParts ?s = Some ((removeNotations [0] ?s)\<lparr>m_selectionModel := []\<rparr>)"
    unfolding removeSelectedParts_def Let_def r a by simp
  then have "map_option m_notations (removeSelectedParts ?s) = Some (fold remove1 [0] (m_notations ?s))"
    by (simp only: removeNotations_rows [symmetric]) simp
  then have res: "map_option m_notations (removeSelectedParts ?s) = Some [1, 2, 3, 0, 1, 2, 3]"
    by (simp only: f)
  have "map_option m_notations (removeSelectedParts ?s) \<noteq>
      Some (nths (m_notations ?s) {row. \<not> isSelected ?s row})"
    unfolding res k by simp
  with n r k res show ?thesis by blast
qed

subsection \<open>The master stays first\<close>

lemma masterFirst_iff:
  "masterFirst s \<longleftrightarrow> (\<exists>rest. m_notations s = masterNotation s # rest \<and> masterNotation s \<notin> set rest)"
  by (auto simp: masterFirst_def split: list.splits)

lemma masterNotation_simps [simp]:
  "masterNotation (createNewPart s) = masterNotation s"
  "masterNotation (selectPart i s) = masterNotation s"
  "masterNotation (removePart i s) = masterNotation s"
  "masterNotation (setPartTitle i t s) = masterNotation s"
  "masterNotation (setVoiceVisible i v b s) = masterNotation s"
  "masterNotation (copyPart i s) = masterNotation s"
  "masterNotation (apply_model s) = masterNotation s"
  by (simp_all add: masterNotation_def createNewPart_def newExcerptNotation_def setTitle_def
      setOpened_def insertNotation_def selectPart_eq removePart_def setPartTitle_def
      setVoiceVisible_def notifyAboutNotationChanged_def setPartsVoiceVisible_def copyPart_def
      clone_def apply_model_def Let_def split: option.splits)

lemma nextHandle_simps [simp]:
  "nextHandle (createNewPart s) = Suc (nextHandle s)"
  "nextHandle (selectPart i s) = nextHandle s"
  "nextHandle (removePart i s) = nextHandle s"
  "nextHandle (setPartTitle i t s) = nextHandle s"
  "nextHandle (setVoiceVisible i v b s) = nextHandle s"
  "nextHandle (apply_model s) = nextHandle s"
  by (simp_all add: createNewPart_def newExcerptNotation_def setTitle_def
      setOpened_def insertNotation_def selectPart_eq removePart_def setPartTitle_def
      setVoiceVisible_def notifyAboutNotationChanged_def setPartsVoiceVisible_def
      apply_model_def Let_def split: option.splits)

lemma m_notations_simps [simp]:
  "m_notations (selectPart i s) = m_notations s"
  "m_notations (setPartTitle i t s) = m_notations s"
  "m_notations (setVoiceVisible i v b s) = m_notations s"
  "m_notations (apply_model s) = m_notations s"
  by (simp_all add: selectPart_eq setPartTitle_def setTitle_def
      setVoiceVisible_def notifyAboutNotationChanged_def setPartsVoiceVisible_def
      apply_model_def Let_def split: option.splits)

lemma m_selectionModel_simps [simp]:
  "m_selectionModel (setPartTitle i t s) = m_selectionModel s"
  "m_selectionModel (setVoiceVisible i v b s) = m_selectionModel s"
  "m_selectionModel (apply_model s) = m_selectionModel s"
  by (simp_all add: setPartTitle_def setTitle_def
      setVoiceVisible_def notifyAboutNotationChanged_def setPartsVoiceVisible_def
      apply_model_def Let_def split: option.splits)

lemma wellFormed_heap_only:
  "m_notations s' = m_notations s \<Longrightarrow> m_selectionModel s' = m_selectionModel s \<Longrightarrow>
   masterNotation s' = masterNotation s \<Longrightarrow> nextHandle s' = nextHandle s \<Longrightarrow>
   wellFormed s \<Longrightarrow> wellFormed s'"
  by (simp add: wellFormed_def masterFirst_iff consistent_def)

lemma wellFormed_setPartTitle: "wellFormed s \<Longrightarrow> wellFormed (setPartTitle i t s)"
  by (rule wellFormed_heap_only) simp_all

lemma wellFormed_setVoiceVisible: "wellFormed s \<Longrightarrow> wellFormed (setVoiceVisible i v b s)"
  by (rule wellFormed_heap_only) simp_all

lemma wellFormed_apply_model: "wellFormed s \<Longrightarrow> wellFormed (apply_model s)"
  by (rule wellFormed_heap_only) simp_all

lemma wellFormed_selectPart: "wellFormed s \<Longrightarrow> wellFormed (selectPart i s)"
  by (auto simp: wellFormed_def masterFirst_def consistent_def selectPart_eq Let_def
      isNotationIndexValid_def selToggle_def masterNotation_def split: list.splits)

lemma wellFormed_createNewPart: "wellFormed s \<Longrightarrow> wellFormed (createNewPart s)"
proof -
  assume i: "wellFormed s"
  have rows: "m_notations (createNewPart s) = m_notations s @ [nextHandle s]"
    by (simp add: createNewPart_def newExcerptNotation_def setTitle_def setOpened_def
        insertNotation_def Let_def)
  have sel: "m_selectionModel (createNewPart s) =
      selRowInserted (length (m_notations s)) (m_selectionModel s)"
    by (simp add: createNewPart_def newExcerptNotation_def setTitle_def setOpened_def
        insertNotation_def Let_def)
  from i show ?thesis
    by (auto simp: wellFormed_def masterFirst_iff consistent_def rows sel selRowInserted_def
        less_Suc_eq)
qed

lemma wellFormed_copyPart: "wellFormed s \<Longrightarrow> wellFormed (copyPart i s)"
proof (cases "isNotationIndexValid s i")
  case False
  then show "wellFormed s \<Longrightarrow> wellFormed (copyPart i s)"
    by (simp add: copyPart_def)
next
  case True
  assume i: "wellFormed s"
  from True have rows: "m_notations (copyPart i s) =
      take (nat i + 1) (m_notations s) @ [nextHandle s] @ drop (nat i + 1) (m_notations s)"
    by (simp add: copyPart_def clone_def setTitle_def insertNotation_def Let_def nat_add_distrib
      isNotationIndexValid_def)
  from True have sel: "m_selectionModel (copyPart i s) =
      selRowInserted (nat i + 1) (m_selectionModel s)"
    by (simp add: copyPart_def clone_def setTitle_def insertNotation_def Let_def nat_add_distrib
      isNotationIndexValid_def)
  from True have nx: "nextHandle (copyPart i s) = Suc (nextHandle s)"
    by (simp add: copyPart_def clone_def setTitle_def insertNotation_def Let_def)
  from i obtain rest where r: "m_notations s = masterNotation s # rest"
    "masterNotation s \<notin> set rest"
    by (auto simp: wellFormed_def masterFirst_iff)
  from i have c: "consistent s" by (simp add: wellFormed_def)
  have "masterFirst (copyPart i s)"
    using r c by (auto simp: masterFirst_iff rows consistent_def dest: in_set_takeD in_set_dropD)
  moreover have "consistent (copyPart i s)"
  proof -
    from True have len: "length (m_notations (copyPart i s)) = Suc (length (m_notations s))"
      by (simp add: rows isNotationIndexValid_def)
    have "set (m_notations (copyPart i s)) \<subseteq> insert (nextHandle s) (set (m_notations s))"
      by (auto simp: rows dest: in_set_takeD in_set_dropD)
    with c have "\<forall>h\<in>set (m_notations (copyPart i s)). h < Suc (nextHandle s)"
      by (auto simp: consistent_def less_Suc_eq)
    moreover from c
    have "\<forall>row\<in>set (m_selectionModel (copyPart i s)). row < Suc (length (m_notations s))"
      by (auto simp: consistent_def sel selRowInserted_def)
    ultimately show ?thesis
      using c by (simp add: consistent_def nx len)
  qed
  ultimately show ?thesis by (simp add: wellFormed_def)
qed

lemma wellFormed_removePart: "wellFormed s \<Longrightarrow> i \<noteq> 0 \<Longrightarrow> wellFormed (removePart i s)"
proof (cases "isNotationIndexValid s i")
  case False
  then show "wellFormed s \<Longrightarrow> wellFormed (removePart i s)"
    by (simp add: removePart_def)
next
  case True
  assume i: "wellFormed s" and nz: "i \<noteq> 0"
  from True nz obtain k where k: "nat i = Suc k" "Suc k < length (m_notations s)"
    by (cases "nat i") (auto simp: isNotationIndexValid_def)
  from True have rows: "m_notations (removePart i s) =
      take (nat i) (m_notations s) @ drop (Suc (nat i)) (m_notations s)"
    by (simp add: removePart_def setOpened_def Let_def)
  from True have sel: "m_selectionModel (removePart i s) =
      selRowRemoved (nat i) (m_selectionModel s)"
    by (simp add: removePart_def setOpened_def Let_def)
  from i obtain rest where r: "m_notations s = masterNotation s # rest"
    "masterNotation s \<notin> set rest"
    by (auto simp: wellFormed_def masterFirst_iff)
  from i have c: "consistent s" by (simp add: wellFormed_def)
  have "masterFirst (removePart i s)"
    using r k by (auto simp: masterFirst_iff rows dest: in_set_takeD in_set_dropD)
  moreover have "consistent (removePart i s)"
  proof -
    from k have len: "Suc (length (m_notations (removePart i s))) = length (m_notations s)"
      by (simp add: rows)
    have "set (m_notations (removePart i s)) \<subseteq> set (m_notations s)"
      by (auto simp: rows dest: in_set_takeD in_set_dropD)
    with c have "\<forall>h\<in>set (m_notations (removePart i s)). h < nextHandle s"
      by (auto simp: consistent_def)
    moreover from c k
    have "\<forall>row\<in>set (m_selectionModel (removePart i s)). Suc row < length (m_notations s)"
      by (auto simp: consistent_def sel selRowRemoved_def)
    ultimately show ?thesis
      using c by (simp add: consistent_def len [symmetric])
  qed
  ultimately show ?thesis by (simp add: wellFormed_def)
qed

lemma removeNotations_frame [simp]:
  "masterNotation (removeNotations hs s) = masterNotation s"
  "nextHandle (removeNotations hs s) = nextHandle s"
  by (induction hs arbitrary: s) simp_all

lemma openNotations_frame [simp]:
  "masterNotation (openNotations hs s) = masterNotation s"
  "nextHandle (openNotations hs s) = nextHandle s"
  "m_notations (openNotations hs s) = m_notations s"
  "m_selectionModel (openNotations hs s) = m_selectionModel s"
  by (induction hs arbitrary: s) (simp_all add: setOpened_def masterNotation_def)

lemma fold_remove1_Cons:
  "x \<notin> set hs \<Longrightarrow> fold remove1 hs (x # xs) = x # fold remove1 hs xs"
  by (induction hs arbitrary: xs) auto

lemma set_fold_remove1: "set (fold remove1 hs xs) \<subseteq> set xs"
proof (induction hs arbitrary: xs)
  case Nil
  show ?case by simp
next
  case (Cons h hs)
  have "set (fold remove1 hs (remove1 h xs)) \<subseteq> set (remove1 h xs)"
    by (rule Cons.IH)
  also have "\<dots> \<subseteq> set xs"
    by (rule set_remove1_subset)
  finally show ?case by simp
qed

lemma wellFormed_removeSelectedParts:
  assumes i: "wellFormed s" and z: "\<not> isSelected s 0"
  shows "\<exists>s'. removeSelectedParts s = Some s' \<and> wellFormed s'"
proof (cases "selectedRows s = []")
  case True
  with i show ?thesis
    by (simp add: removeSelectedParts_def)
next
  case False
  let ?ns = "m_notations s"
  let ?hs = "map (\<lambda>row. ?ns ! row) (selectedRows s)"
  let ?s' = "(removeNotations ?hs s)\<lparr>m_selectionModel := []\<rparr>"
  from i have c: "consistent s" by (simp add: wellFormed_def)
  from i obtain rest where r: "?ns = masterNotation s # rest" "masterNotation s \<notin> set rest"
    by (auto simp: wellFormed_def masterFirst_iff)
  from c have range: "\<forall>row\<in>set (selectedRows s). row < length ?ns"
    by (simp add: consistent_def selectedRows_def)
  with False have res: "removeSelectedParts s = Some ?s'"
    by (simp add: removeSelectedParts_def notationsAt_Some)
  have notin: "masterNotation s \<notin> set ?hs"
  proof
    assume "masterNotation s \<in> set ?hs"
    then obtain row where row: "row \<in> set (selectedRows s)" "?ns ! row = masterNotation s"
      by auto
    from row(1) z have "row \<noteq> 0"
      unfolding isSelected_def selectedRows_def by metis
    then obtain k where k: "row = Suc k" by (cases row) auto
    with row(1) range r(1) have "rest ! k \<in> set rest" by auto
    with row(2) k r show False by simp
  qed
  have f: "m_notations ?s' = fold remove1 ?hs ?ns"
    by (simp add: removeNotations_rows)
  also have "\<dots> = fold remove1 ?hs (masterNotation s # rest)"
    by (rule arg_cong [OF r(1)])
  also have "\<dots> = masterNotation s # fold remove1 ?hs rest"
    by (rule fold_remove1_Cons [OF notin])
  finally have rows: "m_notations ?s' = masterNotation s # fold remove1 ?hs rest" .
  have sub: "set (fold remove1 ?hs rest) \<subseteq> set rest"
    by (rule set_fold_remove1)
  have "masterNotation ?s' = masterNotation (removeNotations ?hs s)"
    by (simp add: masterNotation_def)
  then have m: "masterNotation ?s' = masterNotation s"
    by simp
  have "masterFirst ?s'"
    using r(2) sub by (auto simp: masterFirst_iff rows m)
  moreover have "consistent ?s'"
  proof -
    have "set (m_notations ?s') \<subseteq> set ?ns"
      unfolding f by (rule set_fold_remove1)
    moreover have "nextHandle ?s' = nextHandle s" and "m_selectionModel ?s' = []"
      by simp_all
    ultimately show ?thesis
      using c by (auto simp: consistent_def m)
  qed
  ultimately show ?thesis
    using res by (simp add: wellFormed_def)
qed

lemma wellFormed_openSelectedParts:
  assumes i: "wellFormed s"
  shows "\<exists>s'. openSelectedParts s = Some s' \<and> wellFormed s'"
proof (cases "selectedRows s = []")
  case True
  with i show ?thesis
    by (simp add: openSelectedParts_def)
next
  case False
  let ?hs = "map (\<lambda>row. m_notations s ! row) (selectedRows s)"
  let ?s' = "(openNotations ?hs s)\<lparr>m_currentNotation := Some (last ?hs)\<rparr>"
  from i have "\<forall>row\<in>set (selectedRows s). row < length (m_notations s)"
    by (simp add: wellFormed_def consistent_def selectedRows_def)
  with False have "openSelectedParts s = Some ?s'"
    by (simp add: openSelectedParts_def notationsAt_Some Let_def)
  moreover have "masterNotation ?s' = masterNotation (openNotations ?hs s)"
    by (simp add: masterNotation_def)
  then have "wellFormed ?s'"
    by (intro wellFormed_heap_only [OF _ _ _ _ i]) simp_all
  ultimately show ?thesis by blast
qed

lemma wellFormed_perform:
  "wellFormed s \<Longrightarrow> sparesMaster op s \<Longrightarrow> \<exists>s'. perform op s = Some s' \<and> wellFormed s'"
  by (cases op)
    (simp_all add: wellFormed_createNewPart wellFormed_selectPart wellFormed_removePart wellFormed_setPartTitle
      wellFormed_setVoiceVisible wellFormed_copyPart wellFormed_removeSelectedParts wellFormed_openSelectedParts
      wellFormed_apply_model)

lemma wellFormed_run:
  "wellFormed s \<Longrightarrow> sparesMasterAll ops s \<Longrightarrow> \<exists>s'. run ops s = Some s' \<and> wellFormed s'"
proof (induction ops arbitrary: s)
  case Nil
  then show ?case by simp
next
  case (Cons op ops)
  from Cons.prems have "sparesMaster op s" by simp
  from wellFormed_perform [OF Cons.prems(1) this] obtain s1 where
    s1: "perform op s = Some s1" "wellFormed s1" by blast
  with Cons.prems have "sparesMasterAll ops s1" by simp
  from Cons.IH [OF s1(2) this] s1(1) show ?case by simp
qed

lemma wellFormed_load:
  assumes e: "m_notations s = []" and h: "hostReady s"
  shows "wellFormed (load s)"
proof -
  have rows: "m_notations (load s) = masterNotation s # excerpts (heap s (masterNotation s))"
    by (simp add: m_notations_load e)
  have sel: "m_selectionModel (load s) = []" and nx: "nextHandle (load s) = nextHandle s"
    by (simp_all add: load_def)
  from h show ?thesis
    by (auto simp: wellFormed_def masterFirst_iff consistent_def rows sel nx hostReady_def)
qed

text \<open>
  C3, as the code has it. Start from \<open>load\<close> on the adapter as constructed, with a ready
  host. Then every sequence of operations that contains no further \<open>load\<close>, no
  \<open>removePart\<close> of row 0 and no \<open>removeSelectedParts\<close> while row 0 is selected runs to
  the end, and in the state it reaches the master is the first row and no other row.
\<close>

theorem master_stays_first:
  assumes "m_notations s = []" and "hostReady s" and "sparesMasterAll ops (load s)"
  shows "\<exists>s'. run ops (load s) = Some s' \<and> masterFirst s'"
  using wellFormed_run [OF wellFormed_load [OF assms(1,2)] assms(3)] by (auto simp: wellFormed_def)

lemma example_run:
  "sparesMasterAll
     [CreateNewPart, CopyPart 1, SelectPart 2, SelectPart 3, RemoveSelectedParts, RemovePart 1,
      SetPartTitle 0 ''Symphony'', SetVoiceVisible 0 1 False, SelectPart 1, OpenSelectedParts, Apply]
     (load newModel)"
  by code_simp

lemma example_run_rows:
  "map_option m_notations (run
     [CreateNewPart, CopyPart 1, SelectPart 2, SelectPart 3, RemoveSelectedParts, RemovePart 1,
      SetPartTitle 0 ''Symphony'', SetVoiceVisible 0 1 False, SelectPart 1, OpenSelectedParts, Apply]
     (load newModel)) = Some [0, 3, 4]"
  by code_simp

theorem master_stays_first_witness:
  "m_notations newModel = [] \<and> hostReady newModel \<and>
   sparesMasterAll
     [CreateNewPart, CopyPart 1, SelectPart 2, SelectPart 3, RemoveSelectedParts, RemovePart 1,
      SetPartTitle 0 ''Symphony'', SetVoiceVisible 0 1 False, SelectPart 1, OpenSelectedParts, Apply]
     (load newModel) \<and>
   (\<exists>s'. run
     [CreateNewPart, CopyPart 1, SelectPart 2, SelectPart 3, RemoveSelectedParts, RemovePart 1,
      SetPartTitle 0 ''Symphony'', SetVoiceVisible 0 1 False, SelectPart 1, OpenSelectedParts, Apply]
     (load newModel) = Some s' \<and> masterFirst s' \<and> m_notations s' = [0, 3, 4])"
proof -
  have e: "m_notations newModel = []"
    by (simp add: newModel_def)
  have h: "hostReady newModel"
    by (simp add: hostReady_def newModel_def masterNotation_def exampleNotation_def)
  from master_stays_first [OF e h example_run] example_run_rows e h example_run
  show ?thesis by auto
qed

text \<open>
  C3 as the claim gives it does not hold: nothing guards row 0. After \<open>load\<close>,
  \<open>removePart\<close> of row 0 removes the master, and so does \<open>removeSelectedParts\<close> with
  row 0 selected.
\<close>

theorem master_removable_counterexample:
  "map_option m_notations (run [RemovePart 0] (load newModel)) = Some [1, 2, 3] \<and>
   map_option masterFirst (run [RemovePart 0] (load newModel)) = Some False \<and>
   map_option m_notations (run [SelectPart 0, RemoveSelectedParts] (load newModel)) =
     Some [1, 2, 3] \<and>
   map_option masterFirst (run [SelectPart 0, RemoveSelectedParts] (load newModel)) = Some False"
  by code_simp

end
